theory Spec2Isabelle
  imports Main
begin

section \<open>Strings\<close>

text \<open>
  A JavaScript string is modelled by the bytes of its UTF-8 form, a \<^typ>\<open>string\<close>. The
  regular expression of \<^verbatim>\<open>getEndpointFromSubPath\<close> and the tests on \<^verbatim>\<open>'/'\<close> look at
  ASCII characters only, and an ASCII character is one byte and one UTF-16 code unit, so
  they see the same positions in both forms.

  \<^verbatim>\<open>toLowerCase\<close> of the language maps the upper-case letters of every script. The
  function below maps the letters \<^verbatim>\<open>A\<close> to \<^verbatim>\<open>Z\<close> and keeps every other byte, which is the
  function of the language on a string of ASCII characters and on no other string with
  an upper-case letter. What is proved of its value is proved for ASCII strings
  (\<open>ascii_string\<close>) only.
\<close>

definition ascii_string :: "string \<Rightarrow> bool" where
  "ascii_string s = list_all (\<lambda>c. (of_char c :: nat) < 128) s"

definition is_upper :: "char \<Rightarrow> bool" where
  "is_upper c = (65 \<le> (of_char c :: nat) \<and> (of_char c :: nat) \<le> 90)"

definition is_lower_or_digit :: "char \<Rightarrow> bool" where
  "is_lower_or_digit c =
     ((97 \<le> (of_char c :: nat) \<and> (of_char c :: nat) \<le> 122) \<or>
      (48 \<le> (of_char c :: nat) \<and> (of_char c :: nat) \<le> 57))"

definition lower_char :: "char \<Rightarrow> char" where
  "lower_char c = (if is_upper c then char_of (of_char c + (32 :: nat)) else c)"

definition toLowerCase :: "string \<Rightarrow> string" where
  "toLowerCase s = map lower_char s"

definition startsWith_slash :: "string \<Rightarrow> bool" where
  "startsWith_slash s = (case s of c # _ \<Rightarrow> c = CHR ''/'' | [] \<Rightarrow> False)"

definition endsWith_slash :: "string \<Rightarrow> bool" where
  "endsWith_slash s = (s \<noteq> [] \<and> last s = CHR ''/'')"

text \<open>\<^verbatim>\<open>Array.prototype.join\<close> on an array of strings.\<close>

fun join :: "string \<Rightarrow> string list \<Rightarrow> string" where
  "join sep [] = []"
| "join sep [x] = x"
| "join sep (x # y # ys) = x @ sep @ join sep (y # ys)"

subsection \<open>encodeURIComponent\<close>

text \<open>
  Every byte outside the unreserved set (letters, digits and \<^verbatim>\<open>- _ . ! ~ * ' ( )\<close>) becomes
  \<^verbatim>\<open>%XX\<close> with upper-case hexadecimal digits. On the UTF-8 form this is the whole function:
  ECMAScript encodes a character outside the set as the escapes of its UTF-8 bytes. (It
  throws on a string with an unpaired surrogate; such a string has no UTF-8 form.)
\<close>

definition uri_unreserved :: "char \<Rightarrow> bool" where
  "uri_unreserved c =
     (is_upper c \<or> is_lower_or_digit c \<or>
      c \<in> set [CHR ''-'', CHR ''_'', CHR ''.'', CHR ''!'', CHR ''~'', CHR ''*'', CHR 0x27,
                CHR ''('', CHR '')''])"

definition hex_digit :: "nat \<Rightarrow> char" where
  "hex_digit n = ''0123456789ABCDEF'' ! n"

definition percent_encode :: "char \<Rightarrow> string" where
  "percent_encode c =
     [CHR ''%'', hex_digit ((of_char c :: nat) div 16), hex_digit ((of_char c :: nat) mod 16)]"

definition encodeURIComponent :: "string \<Rightarrow> string" where
  "encodeURIComponent s =
     concat (map (\<lambda>c. if uri_unreserved c then [c] else percent_encode c) s)"

subsection \<open>The replacement of getEndpointFromSubPath\<close>

text \<open>
  \<^verbatim>\<open>path.replace(/([A-Z]+|[a-z0-9])([A-Z])(?!$)/, '$1_$2')\<close>: the expression has no global
  flag, so the leftmost match is replaced and no other. The matcher below follows the
  backtracking order of the expression at one start position.

  \<open>group1 s\<close> lists the lengths the first group can take at the start of \<open>s\<close>, in the
  order they are tried: the first alternative \<^verbatim>\<open>[A-Z]+\<close> is greedy, so the whole run of
  upper-case letters first, then one letter less, down to one; then the second
  alternative \<^verbatim>\<open>[a-z0-9]\<close>, one character.
\<close>

definition group1 :: "string \<Rightarrow> nat list" where
  "group1 s =
     rev [1 ..< Suc (length (takeWhile is_upper s))] @
     (case s of c # _ \<Rightarrow> if is_lower_or_digit c then [1] else [] | [] \<Rightarrow> [])"

text \<open>
  \<^verbatim>\<open>([A-Z])(?!$)\<close> on what follows the first group: one upper-case letter, and the input
  does not end after it.
\<close>

definition group2_lookahead :: "string \<Rightarrow> bool" where
  "group2_lookahead t = (case t of c # rest \<Rightarrow> is_upper c \<and> rest \<noteq> [] | [] \<Rightarrow> False)"

text \<open>The match that starts at the first character of \<open>s\<close>: the length of its first group.\<close>

definition exec_at :: "string \<Rightarrow> nat option" where
  "exec_at s = find (\<lambda>k. group2_lookahead (drop k s)) (group1 s)"

text \<open>
  The start positions are tried from the left. At a match, \<^verbatim>\<open>'$1_$2'\<close> puts an
  underscore between the two groups, and the text before and after the match stays.
\<close>

fun replace_first :: "string \<Rightarrow> string" where
  "replace_first [] = []"
| "replace_first (c # cs) =
     (case exec_at (c # cs) of
        Some k \<Rightarrow> take k (c # cs) @ CHR ''_'' # drop k (c # cs)
      | None \<Rightarrow> c # replace_first cs)"

text \<open>The longest first group the expression can try at the start of \<open>s\<close>.\<close>

definition group1_bound :: "string \<Rightarrow> nat" where
  "group1_bound s =
     (case s of
        [] \<Rightarrow> 0
      | c # _ \<Rightarrow>
          if is_upper c then length (takeWhile is_upper s)
          else if is_lower_or_digit c then 1 else 0)"

subsection \<open>The rewrite in the specification's words\<close>

text \<open>
  A transition of \<open>s\<close> from \<open>i\<close> into \<open>j\<close>: the characters from \<open>i\<close> up to \<open>j\<close> are a run
  of upper-case letters or one lower-case letter or digit, the character at \<open>j\<close> is an
  upper-case letter, and it is not the last character.
\<close>

definition transition :: "string \<Rightarrow> nat \<Rightarrow> nat \<Rightarrow> bool" where
  "transition s i j =
     (i < j \<and> Suc j < length s \<and> is_upper (s ! j) \<and>
      (list_all is_upper (take (j - i) (drop i s)) \<or>
       (j = Suc i \<and> is_lower_or_digit (s ! i))))"

text \<open>
  The first transition: the least start that has one, and for that start the longest
  run. \<open>run_end s i\<close> is the greatest \<open>j\<close> with a transition from \<open>i\<close> into \<open>j\<close>.
\<close>

definition run_end :: "string \<Rightarrow> nat \<Rightarrow> nat option" where
  "run_end s i = find (transition s i) (rev [0 ..< length s])"

fun first_some :: "('a \<Rightarrow> 'b option) \<Rightarrow> 'a list \<Rightarrow> 'b option" where
  "first_some f [] = None"
| "first_some f (x # xs) = (case f x of Some y \<Rightarrow> Some y | None \<Rightarrow> first_some f xs)"

definition first_transition :: "string \<Rightarrow> nat option" where
  "first_transition s = first_some (run_end s) [0 ..< length s]"

definition insert_underscore :: "string \<Rightarrow> nat option \<Rightarrow> string" where
  "insert_underscore s p =
     (case p of None \<Rightarrow> s | Some j \<Rightarrow> take j s @ CHR ''_'' # drop j s)"

definition snake_case :: "string \<Rightarrow> string" where
  "snake_case s = toLowerCase (insert_underscore s (first_transition s))"

section \<open>Values\<close>

text \<open>
  A parsed JSON document. Numbers are carried as integers: no operation of the source
  computes with one. An association list stands for the object whose own properties are
  its keys, the first binding of a key being its value.
\<close>

datatype json =
    JNull
  | JBool bool
  | JNum int
  | JStr string
  | JArr "json list"
  | JObj "(string \<times> json) list"

text \<open>
  What an expression of the source can evaluate to: \<^verbatim>\<open>undefined\<close>, a JSON value, or a
  built-in object found on a prototype (named by the property it was read from).
\<close>

datatype jsval = Undefined | Value json | Builtin string

text \<open>
  What the source throws: an instance of \<^verbatim>\<open>Error\<close> with its message (the transport's
  error value thrown as it is, or \<^verbatim>\<open>new Error(message)\<close>), the \<^verbatim>\<open>TypeError\<close> of the
  language itself, or \<^verbatim>\<open>new Exception(message, code)\<close> of the application library. Only
  the last one has a code.
\<close>

datatype thrown = Error string | TypeError | Exception jsval string

definition error_code :: "thrown \<Rightarrow> string option" where
  "error_code e = (case e of Exception m c \<Rightarrow> Some c | _ \<Rightarrow> None)"

definition own_keys :: "(string \<times> json) list \<Rightarrow> string list" where
  "own_keys kvs = remdups (map fst kvs)"

subsection \<open>The property names the source writes\<close>

text \<open>
  The source reads four properties by a literal name: \<^verbatim>\<open>error\<close>, \<^verbatim>\<open>message\<close>,
  \<^verbatim>\<open>success\<close> and \<^verbatim>\<open>version_supported\<close>. No built-in prototype defines one of them, so
  for these names \<^verbatim>\<open>in\<close> on an object is ownership and is false on an array, and a read
  of a name a value does not own gives \<^verbatim>\<open>undefined\<close>. \<^verbatim>\<open>in\<close> throws a TypeError on a
  value that is not an object, and so does a read on \<^verbatim>\<open>null\<close> and on \<^verbatim>\<open>undefined\<close>.
\<close>

datatype literal_name = N_error | N_message | N_success | N_version_supported

fun name_of :: "literal_name \<Rightarrow> string" where
  "name_of N_error = ''error''"
| "name_of N_message = ''message''"
| "name_of N_success = ''success''"
| "name_of N_version_supported = ''version_supported''"

fun js_in :: "literal_name \<Rightarrow> json \<Rightarrow> thrown + bool" where
  "js_in n (JObj kvs) = Inr (name_of n \<in> set (map fst kvs))"
| "js_in n (JArr xs) = Inr False"
| "js_in n JNull = Inl TypeError"
| "js_in n (JBool b) = Inl TypeError"
| "js_in n (JNum i) = Inl TypeError"
| "js_in n (JStr s) = Inl TypeError"

fun get_member :: "json \<Rightarrow> literal_name \<Rightarrow> thrown + jsval" where
  "get_member JNull n = Inl TypeError"
| "get_member (JObj kvs) n =
     Inr (case map_of kvs (name_of n) of Some v \<Rightarrow> Value v | None \<Rightarrow> Undefined)"
| "get_member (JBool b) n = Inr Undefined"
| "get_member (JNum i) n = Inr Undefined"
| "get_member (JStr s) n = Inr Undefined"
| "get_member (JArr xs) n = Inr Undefined"

fun member_of :: "jsval \<Rightarrow> literal_name \<Rightarrow> thrown + jsval" where
  "member_of Undefined n = Inl TypeError"
| "member_of (Builtin b) n = Inr Undefined"
| "member_of (Value j) n = get_member j n"

text \<open>
  \<^verbatim>\<open>Object.keys(v).length\<close>. The source evaluates it only where \<^verbatim>\<open>'error' in v\<close> was
  true, that is on an object.
\<close>

fun keys_length :: "json \<Rightarrow> thrown + nat" where
  "keys_length JNull = Inl TypeError"
| "keys_length (JObj kvs) = Inr (length (own_keys kvs))"
| "keys_length (JArr xs) = Inr (length xs)"
| "keys_length (JStr s) = Inr (length s)"
| "keys_length (JBool b) = Inr 0"
| "keys_length (JNum i) = Inr 0"

text \<open>
  \<^verbatim>\<open>v === requestedVersion\<close>, the right-hand side being a string or \<^verbatim>\<open>undefined\<close> by its
  declared type: equal types and equal values, with no conversion.
\<close>

fun strict_equals :: "jsval \<Rightarrow> string option \<Rightarrow> bool" where
  "strict_equals Undefined None = True"
| "strict_equals (Value (JStr s)) (Some r) = (s = r)"
| "strict_equals v r = False"

definition requested_value :: "string option \<Rightarrow> jsval" where
  "requested_value r = (case r of None \<Rightarrow> Undefined | Some s \<Rightarrow> Value (JStr s))"

subsection \<open>The cache object\<close>

text \<open>
  \<^verbatim>\<open>ApiClientFactory.configs\<close> is the object literal \<^verbatim>\<open>{ }\<close>, read and written under a key
  that is any string. Its prototype is \<^verbatim>\<open>Object.prototype\<close>, whose properties \<^verbatim>\<open>in\<close> and
  a read by key find as well as the own ones.
\<close>

definition object_prototype_names :: "string list" where
  "object_prototype_names =
     [''constructor'', ''hasOwnProperty'', ''isPrototypeOf'', ''propertyIsEnumerable'',
      ''toLocaleString'', ''toString'', ''valueOf'', ''__proto__'', ''__defineGetter__'',
      ''__defineSetter__'', ''__lookupGetter__'', ''__lookupSetter__'']"

definition has_property :: "string \<Rightarrow> (string \<times> json) list \<Rightarrow> bool" where
  "has_property k kvs = (k \<in> set (map fst kvs) \<or> k \<in> set object_prototype_names)"

definition get_property :: "(string \<times> json) list \<Rightarrow> string \<Rightarrow> jsval" where
  "get_property kvs k =
     (case map_of kvs k of
        Some v \<Rightarrow> Value v
      | None \<Rightarrow> if k \<in> set object_prototype_names then Builtin k else Undefined)"

text \<open>
  \<^verbatim>\<open>obj[k] = v\<close> for a key the object does not inherit (the source assigns only after
  \<^verbatim>\<open>in\<close> was false): the own property is replaced, or added last.
\<close>

fun set_property :: "(string \<times> json) list \<Rightarrow> string \<Rightarrow> json \<Rightarrow> (string \<times> json) list" where
  "set_property [] k v = [(k, v)]"
| "set_property ((k', v') # kvs) k v =
     (if k' = k then (k, v) # kvs else (k', v') # set_property kvs k v)"

section \<open>The transport and the state of the process\<close>

text \<open>
  \<^verbatim>\<open>HttpJsonClient\<close> is a collaborator from another package. It is built from a URL and a
  timeout in seconds, and each of its request methods resolves to a response whose body
  is parsed JSON or an error value (an instance of \<^verbatim>\<open>Error\<close>, kept by its message).
  The timeout is a number the source passes on and never computes with.
\<close>

record http_json_client =
  client_url :: string
  client_timeout :: int

datatype http_method = GET | POST | PATCH | PUT | HEAD

record request =
  req_method :: http_method
  req_url :: string
  req_timeout :: int
  req_data :: jsval

datatype response_body = Parsed json | Failure string

record response =
  body :: response_body

text \<open>
  The state a call can read or change: the static \<^verbatim>\<open>ApiClientFactory.configs\<close>, the arrays
  the caller holds (by address, since \<^verbatim>\<open>getEndpointFromSubPath\<close> changes the array it is
  given), and the requests sent so far, in order. The last one is the record of the
  network traffic; the source does not read it.

  The network answers a request knowing the requests before it. \<^verbatim>\<open>await\<close> is sequential
  composition: a call runs to its end before the next one starts, and calls that overlap
  in time are not modelled.
\<close>

record state =
  configs :: "(string \<times> json) list"
  arrays :: "nat \<Rightarrow> string list"
  requests :: "request list"

type_synonym network = "request list \<Rightarrow> request \<Rightarrow> response_body"

definition send ::
  "network \<Rightarrow> http_method \<Rightarrow> http_json_client \<Rightarrow> jsval \<Rightarrow> state \<Rightarrow> response \<times> state" where
  "send net m client d st =
     (let req = \<lparr>req_method = m, req_url = client_url client,
                 req_timeout = client_timeout client, req_data = d\<rparr>
      in (\<lparr>body = net (requests st) req\<rparr>, st\<lparr>requests := requests st @ [req]\<rparr>))"

definition requestGet :: "network \<Rightarrow> http_json_client \<Rightarrow> jsval \<Rightarrow> state \<Rightarrow> response \<times> state" where
  "requestGet net = send net GET"

definition requestPost :: "network \<Rightarrow> http_json_client \<Rightarrow> jsval \<Rightarrow> state \<Rightarrow> response \<times> state" where
  "requestPost net = send net POST"

definition requestPatch :: "network \<Rightarrow> http_json_client \<Rightarrow> jsval \<Rightarrow> state \<Rightarrow> response \<times> state" where
  "requestPatch net = send net PATCH"

definition requestPut :: "network \<Rightarrow> http_json_client \<Rightarrow> jsval \<Rightarrow> state \<Rightarrow> response \<times> state" where
  "requestPut net = send net PUT"

definition requestHead :: "network \<Rightarrow> http_json_client \<Rightarrow> jsval \<Rightarrow> state \<Rightarrow> response \<times> state" where
  "requestHead net = send net HEAD"

section \<open>ApiClientFactory\<close>

record api_client_factory =
  apiBaseUrl :: string
  apiNamespace :: string
  requestedVersion :: "string option"
  timeout :: int

definition API_CONFIG_REQUEST_TIMEOUT :: int where
  "API_CONFIG_REQUEST_TIMEOUT = 5"

text \<open>The constructor; an absent \<^verbatim>\<open>timeout\<close> takes the default of the parameter, 30.\<close>

definition new_ApiClientFactory ::
  "string \<Rightarrow> string \<Rightarrow> string option \<Rightarrow> int option \<Rightarrow> api_client_factory" where
  "new_ApiClientFactory base ns version t =
     \<lparr>apiBaseUrl = (if \<not> endsWith_slash base then base @ ''/'' else base),
      apiNamespace = encodeURIComponent ns,
      requestedVersion = version,
      timeout = (case t of None \<Rightarrow> 30 | Some x \<Rightarrow> x)\<rparr>"

text \<open>
  \<^verbatim>\<open>getConfig\<close>. \<^verbatim>\<open>this.instanceClass.configs\<close> is \<^verbatim>\<open>ApiClientFactory.configs\<close> for an
  instance of the class, the \<open>configs\<close> of the state.
\<close>

definition getConfig :: "network \<Rightarrow> api_client_factory \<Rightarrow> state \<Rightarrow> (thrown + jsval) \<times> state" where
  "getConfig net this st =
     (if \<not> has_property (apiNamespace this) (configs st) then
        (let httpClient =
               \<lparr>client_url = apiBaseUrl this @ ''.well-known/pas-'' @ apiNamespace this @ ''-api/config'',
                client_timeout = API_CONFIG_REQUEST_TIMEOUT\<rparr>;
             (result, st1) =
               (case requestedVersion this of
                  Some v \<Rightarrow>
                    requestPost net httpClient
                      (Value (JObj [(apiNamespace this @ ''_version'', JStr v)])) st
                | None \<Rightarrow> requestGet net httpClient Undefined st)
         in case body result of
              Failure m \<Rightarrow> (Inl (Error m), st1)
            | Parsed b \<Rightarrow>
                (let st2 = st1\<lparr>configs := set_property (configs st1) (apiNamespace this) b\<rparr>
                 in (Inr (get_property (configs st2) (apiNamespace this)), st2)))
      else (Inr (get_property (configs st) (apiNamespace this)), st))"

definition isVersionSupported :: "network \<Rightarrow> api_client_factory \<Rightarrow> state \<Rightarrow> (thrown + bool) \<times> state" where
  "isVersionSupported net this st =
     (case getConfig net this st of
        (Inl e, st1) \<Rightarrow> (Inl e, st1)
      | (Inr config, st1) \<Rightarrow>
          (case member_of config N_version_supported of
             Inl e \<Rightarrow> (Inl e, st1)
           | Inr v \<Rightarrow> (Inr (strict_equals v (requestedVersion this)), st1)))"

definition createClient :: "api_client_factory \<Rightarrow> string \<Rightarrow> http_json_client" where
  "createClient this endpointPath =
     (let endpointPath1 = (if startsWith_slash endpointPath then drop 1 endpointPath else endpointPath)
      in \<lparr>client_url = apiBaseUrl this @ endpointPath1, client_timeout = timeout this\<rparr>)"

definition createVerifiedClient ::
  "network \<Rightarrow> api_client_factory \<Rightarrow> string \<Rightarrow> state \<Rightarrow> (thrown + http_json_client) \<times> state" where
  "createVerifiedClient net this endpointPath st =
     (case isVersionSupported net this st of
        (Inl e, st1) \<Rightarrow> (Inl e, st1)
      | (Inr supported, st1) \<Rightarrow>
          if \<not> supported then (Inl (Error ''APP_VERSION_NOT_SUPPORTED''), st1)
          else (Inr (createClient this endpointPath), st1))"

section \<open>CrudClient\<close>

record crud_client =
  entity :: string
  apiClientFactory :: api_client_factory

definition new_CrudClient ::
  "string \<Rightarrow> string \<Rightarrow> string option \<Rightarrow> int option \<Rightarrow> crud_client" where
  "new_CrudClient base ent version t =
     \<lparr>entity = encodeURIComponent ent,
      apiClientFactory = new_ApiClientFactory base ''crud'' version t\<rparr>"

text \<open>
  The \<^verbatim>\<open>subPath\<close> argument: absent, a string, or an array of strings. An array is an
  object the caller holds, so it is passed by its address in \<open>arrays\<close>.
\<close>

datatype subpath = NoSubPath | PathString string | PathArray nat

text \<open>
  \<^verbatim>\<open>getEndpointFromSubPath\<close>. For an array argument the first \<^verbatim>\<open>unshift\<close> acts on the
  caller's array. For the other two the array is a new one, which no one else sees.
  \<^verbatim>\<open>map\<close> returns a new array in every case, and the second \<^verbatim>\<open>unshift\<close> acts on that
  one.
\<close>

definition getEndpointFromSubPath :: "crud_client \<Rightarrow> subpath \<Rightarrow> state \<Rightarrow> string \<times> state" where
  "getEndpointFromSubPath this subPath st =
     (let (subPath1, st1) =
            (case subPath of
               PathArray a \<Rightarrow>
                 (let st1 = st\<lparr>arrays := (arrays st)(a := entity this # arrays st a)\<rparr>
                  in (arrays st1 a, st1))
             | PathString p \<Rightarrow> (entity this # [p], st)
             | NoSubPath \<Rightarrow> (entity this # [], st));
          subPath2 = map (\<lambda>path. toLowerCase (replace_first path)) subPath1;
          subPath3 = [''apis'', ''pas'', ''crud''] @ subPath2
      in (join ''/'' subPath3, st1))"

definition handleResponse :: "response \<Rightarrow> thrown + json" where
  "handleResponse response =
     (case body response of
        Failure m \<Rightarrow> Inl (Error m)
      | Parsed b \<Rightarrow>
          (case js_in N_error b of
             Inl e \<Rightarrow> Inl e
           | Inr has_error \<Rightarrow>
               (case (if has_error then keys_length b else Inr 0) of
                  Inl e \<Rightarrow> Inl e
                | Inr n \<Rightarrow>
                    if has_error \<and> n = 1 then
                      (case get_member b N_error of
                         Inl e \<Rightarrow> Inl e
                       | Inr err \<Rightarrow>
                           (case member_of err N_message of
                              Inl e \<Rightarrow> Inl e
                            | Inr msg \<Rightarrow> Inl (Exception msg ''CRUD_ERROR'')))
                    else Inr b)))"

definition create ::
  "network \<Rightarrow> crud_client \<Rightarrow> subpath \<Rightarrow> jsval \<Rightarrow> state \<Rightarrow> (thrown + json) \<times> state" where
  "create net this subPath d st =
     (let (endpoint, st1) = getEndpointFromSubPath this subPath st
      in case createVerifiedClient net (apiClientFactory this) endpoint st1 of
           (Inl e, st2) \<Rightarrow> (Inl e, st2)
         | (Inr httpClient, st2) \<Rightarrow>
             (let (resp, st3) = requestPost net httpClient d st2 in (handleResponse resp, st3)))"

definition execute ::
  "network \<Rightarrow> crud_client \<Rightarrow> subpath \<Rightarrow> jsval \<Rightarrow> state \<Rightarrow> (thrown + json) \<times> state" where
  "execute net this subPath d st =
     (let (endpoint, st1) = getEndpointFromSubPath this subPath st
      in case createVerifiedClient net (apiClientFactory this) endpoint st1 of
           (Inl e, st2) \<Rightarrow> (Inl e, st2)
         | (Inr httpClient, st2) \<Rightarrow>
             (let (resp, st3) = requestPost net httpClient d st2 in (handleResponse resp, st3)))"

definition get ::
  "network \<Rightarrow> crud_client \<Rightarrow> subpath \<Rightarrow> jsval \<Rightarrow> state \<Rightarrow> (thrown + json) \<times> state" where
  "get net this subPath d st =
     (let (endpoint, st1) = getEndpointFromSubPath this subPath st
      in case createVerifiedClient net (apiClientFactory this) endpoint st1 of
           (Inl e, st2) \<Rightarrow> (Inl e, st2)
         | (Inr httpClient, st2) \<Rightarrow>
             (let (resp, st3) = requestGet net httpClient d st2 in (handleResponse resp, st3)))"

text \<open>
  \<^verbatim>\<open>isValid\<close>: the value \<^verbatim>\<open>handleResponse\<close> returned is replaced by its \<^verbatim>\<open>success\<close>
  when \<^verbatim>\<open>'success' in _return && typeof _return.success == 'boolean'\<close>; the type of a
  value is \<^verbatim>\<open>boolean\<close> exactly when it is a \<open>JBool\<close>.
\<close>

definition unwrap_success :: "json \<Rightarrow> thrown + json" where
  "unwrap_success ret =
     (case js_in N_success ret of
        Inl e \<Rightarrow> Inl e
      | Inr has_success \<Rightarrow>
          if has_success then
            (case get_member ret N_success of
               Inl e \<Rightarrow> Inl e
             | Inr (Value (JBool b)) \<Rightarrow> Inr (JBool b)
             | Inr v \<Rightarrow> Inr ret)
          else Inr ret)"

definition isValid ::
  "network \<Rightarrow> crud_client \<Rightarrow> subpath \<Rightarrow> jsval \<Rightarrow> state \<Rightarrow> (thrown + json) \<times> state" where
  "isValid net this subPath d st =
     (let (endpoint, st1) = getEndpointFromSubPath this subPath st
      in case createVerifiedClient net (apiClientFactory this) endpoint st1 of
           (Inl e, st2) \<Rightarrow> (Inl e, st2)
         | (Inr httpClient, st2) \<Rightarrow>
             (let (resp, st3) = requestHead net httpClient d st2
              in case handleResponse resp of
                   Inl e \<Rightarrow> (Inl e, st3)
                 | Inr ret \<Rightarrow> (unwrap_success ret, st3)))"

definition update ::
  "network \<Rightarrow> crud_client \<Rightarrow> subpath \<Rightarrow> jsval \<Rightarrow> state \<Rightarrow> (thrown + json) \<times> state" where
  "update net this subPath d st =
     (let (endpoint, st1) = getEndpointFromSubPath this subPath st
      in case createVerifiedClient net (apiClientFactory this) endpoint st1 of
           (Inl e, st2) \<Rightarrow> (Inl e, st2)
         | (Inr httpClient, st2) \<Rightarrow>
             (let (resp, st3) = requestPatch net httpClient d st2 in (handleResponse resp, st3)))"

definition upsert ::
  "network \<Rightarrow> crud_client \<Rightarrow> subpath \<Rightarrow> jsval \<Rightarrow> state \<Rightarrow> (thrown + json) \<times> state" where
  "upsert net this subPath d st =
     (let (endpoint, st1) = getEndpointFromSubPath this subPath st
      in case createVerifiedClient net (apiClientFactory this) endpoint st1 of
           (Inl e, st2) \<Rightarrow> (Inl e, st2)
         | (Inr httpClient, st2) \<Rightarrow>
             (let (resp, st3) = requestPut net httpClient d st2 in (handleResponse resp, st3)))"

subsection \<open>Terms of the specification\<close>

text \<open>The sub-path as a sequence: empty when absent, one element for a string.\<close>

definition segments :: "subpath \<Rightarrow> state \<Rightarrow> string list" where
  "segments subPath st =
     (case subPath of NoSubPath \<Rightarrow> [] | PathString p \<Rightarrow> [p] | PathArray a \<Rightarrow> arrays st a)"

text \<open>
  A body that is a record with exactly one key, named \<^verbatim>\<open>error\<close>: the value under the
  key. And the \<^verbatim>\<open>message\<close> of such a value.
\<close>

definition sole_error :: "json \<Rightarrow> json option" where
  "sole_error b =
     (case b of
        JObj kvs \<Rightarrow> if own_keys kvs = [''error''] then map_of kvs ''error'' else None
      | _ \<Rightarrow> None)"

definition message_of :: "json \<Rightarrow> jsval" where
  "message_of e =
     (case e of
        JObj kvs \<Rightarrow> (case map_of kvs ''message'' of Some m \<Rightarrow> Value m | None \<Rightarrow> Undefined)
      | _ \<Rightarrow> Undefined)"

text \<open>A body that is a record with a field \<^verbatim>\<open>success\<close> of boolean type: the boolean.\<close>

definition boolean_success :: "json \<Rightarrow> bool option" where
  "boolean_success b =
     (case b of
        JObj kvs \<Rightarrow> (case map_of kvs ''success'' of Some (JBool v) \<Rightarrow> Some v | _ \<Rightarrow> None)
      | _ \<Rightarrow> None)"

text \<open>
  The request of the fetch protocol: the discovery URL of the namespace, the timeout of
  five seconds, and a POST of the requested version when there is one, a GET with no
  data otherwise.
\<close>

definition config_request :: "api_client_factory \<Rightarrow> request" where
  "config_request this =
     \<lparr>req_method = (case requestedVersion this of Some v \<Rightarrow> POST | None \<Rightarrow> GET),
      req_url = apiBaseUrl this @ ''.well-known/pas-'' @ apiNamespace this @ ''-api/config'',
      req_timeout = 5,
      req_data =
        (case requestedVersion this of
           Some v \<Rightarrow> Value (JObj [(apiNamespace this @ ''_version'', JStr v)])
         | None \<Rightarrow> Undefined)\<rparr>"

text \<open>A path without its leading \<^verbatim>\<open>/\<close>, when it has one.\<close>

definition strip_leading_slash :: "string \<Rightarrow> string" where
  "strip_leading_slash p = (case p of c # rest \<Rightarrow> if c = CHR ''/'' then rest else p | [] \<Rightarrow> [])"

section \<open>The replacement and the first transition\<close>

text \<open>
  The matcher of the source and the rewrite in the specification's words are the same
  function. The two searches run over ranges of positions counted down, so both are
  compared through the positions they keep.
\<close>

lemma find_filter_hd: "find P xs = (case filter P xs of [] \<Rightarrow> None | x # _ \<Rightarrow> Some x)"
  by (induction xs) auto

lemma rev_upt_as_filter: "b \<le> n \<Longrightarrow> rev [a ..< b] = filter (\<lambda>k. a \<le> k \<and> k < b) (rev [0 ..< n])"
proof -
  assume "b \<le> n"
  have "[a ..< b] = filter (\<lambda>k. a \<le> k \<and> k < b) [0 ..< n]"
  proof (rule sorted_distinct_set_unique)
    show "set [a..<b] = set (filter (\<lambda>k. a \<le> k \<and> k < b) [0..<n])"
      using \<open>b \<le> n\<close> by auto
  qed (auto simp: sorted_wrt_filter)
  then show ?thesis by (simp add: rev_filter)
qed

lemma find_rev_upt_cong:
  assumes "\<And>k. (a \<le> k \<and> k < b \<and> P k) = (a' \<le> k \<and> k < b' \<and> Q k)"
  shows "find P (rev [a ..< b]) = find Q (rev [a' ..< b'])"
proof -
  let ?n = "max b b'"
  have "filter P (rev [a ..< b]) = filter (\<lambda>k. a \<le> k \<and> k < b \<and> P k) (rev [0 ..< ?n])"
    by (simp add: rev_upt_as_filter [of b ?n a] conj_commute conj_left_commute)
  moreover have "filter Q (rev [a' ..< b']) = filter (\<lambda>k. a' \<le> k \<and> k < b' \<and> Q k) (rev [0 ..< ?n])"
    by (simp add: rev_upt_as_filter [of b' ?n a'] conj_commute conj_left_commute)
  ultimately have "filter P (rev [a ..< b]) = filter Q (rev [a' ..< b'])"
    using assms by simp
  then show ?thesis by (simp add: find_filter_hd)
qed

lemma list_all_take_takeWhile:
  "k \<le> length s \<Longrightarrow> list_all P (take k s) = (k \<le> length (takeWhile P s))"
proof (induction s arbitrary: k)
  case Nil
  then show ?case by simp
next
  case (Cons c cs)
  then show ?case by (cases k) auto
qed

lemma group2_lookahead_drop:
  "group2_lookahead (drop k s) = (Suc k < length s \<and> is_upper (s ! k))"
proof (cases "k < length s")
  case True
  then have "drop k s = s ! k # drop (Suc k) s" by (simp add: Cons_nth_drop_Suc)
  then show ?thesis using True by (auto simp: group2_lookahead_def)
next
  case False
  then show ?thesis by (simp add: group2_lookahead_def)
qed

lemma upper_not_lower_or_digit: "is_upper c \<Longrightarrow> \<not> is_lower_or_digit c"
  by (auto simp: is_upper_def is_lower_or_digit_def)

lemma group1_as_upt: "group1 s = rev [1 ..< Suc (group1_bound s)]"
  by (cases s) (auto simp: group1_def group1_bound_def upper_not_lower_or_digit)

lemma transition_0:
  "transition s 0 k = (1 \<le> k \<and> k \<le> group1_bound s \<and> Suc k < length s \<and> is_upper (s ! k))"
proof (cases s)
  case Nil
  then show ?thesis by (simp add: transition_def)
next
  case (Cons c cs)
  show ?thesis
  proof (cases "Suc k < length s")
    case False
    then show ?thesis by (simp add: transition_def)
  next
    case True
    then have k: "k \<le> length s" by simp
    have all: "list_all is_upper (take k s) = (k \<le> length (takeWhile is_upper s))"
      using k by (rule list_all_take_takeWhile)
    show ?thesis
    proof (cases "is_upper c")
      case True
      then show ?thesis
        using Cons all by (auto simp: transition_def group1_bound_def upper_not_lower_or_digit)
    next
      case False
      then have "length (takeWhile is_upper s) = 0" using Cons by simp
      with all have "list_all is_upper (take k s) = (k = 0)" by simp
      then show ?thesis
        using Cons False by (auto simp: transition_def group1_bound_def)
    qed
  qed
qed

lemma exec_at_run_end: "exec_at s = run_end s 0"
  unfolding exec_at_def run_end_def group1_as_upt
  by (rule find_rev_upt_cong) (auto simp: transition_0 group2_lookahead_drop)

lemma transition_Cons_Suc: "transition (c # cs) (Suc i) (Suc j) = transition cs i j"
  by (simp add: transition_def)

lemma transition_not_0: "\<not> transition s i 0"
  by (simp add: transition_def)

lemma find_map: "find P (map f xs) = map_option f (find (P \<circ> f) xs)"
  by (induction xs) auto

lemma find_snoc_False: "\<not> P x \<Longrightarrow> find P (xs @ [x]) = find P xs"
  by (induction xs) auto

lemma upt_0_Suc: "[0 ..< Suc n] = 0 # map Suc [0 ..< n]"
  by (metis map_Suc_upt upt_conv_Cons zero_less_Suc)

lemma run_end_Cons_Suc: "run_end (c # cs) (Suc i) = map_option Suc (run_end cs i)"
proof -
  have "rev [0 ..< length (c # cs)] = map Suc (rev [0 ..< length cs]) @ [0]"
    by (simp add: upt_0_Suc rev_map del: upt_Suc)
  then show ?thesis
    by (simp add: run_end_def find_snoc_False transition_not_0 find_map comp_def transition_Cons_Suc)
qed

lemma first_some_map: "first_some f (map g xs) = first_some (f \<circ> g) xs"
  by (induction xs) (auto split: option.splits)

lemma first_some_map_option:
  "first_some (\<lambda>x. map_option g (f x)) xs = map_option g (first_some f xs)"
  by (induction xs) (auto split: option.splits)

lemma first_transition_Cons:
  "first_transition (c # cs) =
     (case run_end (c # cs) 0 of Some j \<Rightarrow> Some j | None \<Rightarrow> map_option Suc (first_transition cs))"
proof -
  have eq: "[0 ..< length (c # cs)] = 0 # map Suc [0 ..< length cs]"
    by (simp add: upt_0_Suc del: upt_Suc)
  have "first_transition (c # cs) = first_some (run_end (c # cs)) (0 # map Suc [0 ..< length cs])"
    unfolding first_transition_def eq ..
  also have "\<dots> = (case run_end (c # cs) 0 of Some j \<Rightarrow> Some j
                    | None \<Rightarrow> first_some (\<lambda>i. map_option Suc (run_end cs i)) [0 ..< length cs])"
    by (simp add: first_some_map comp_def run_end_Cons_Suc split: option.splits)
  finally show ?thesis
    by (simp add: first_some_map_option first_transition_def split: option.splits)
qed

lemma replace_first_refines: "replace_first s = insert_underscore s (first_transition s)"
proof (induction s)
  case Nil
  then show ?case by (simp add: insert_underscore_def first_transition_def)
next
  case (Cons c cs)
  show ?case
  proof (cases "exec_at (c # cs)")
    case None
    then show ?thesis
      using Cons by (simp add: first_transition_Cons exec_at_run_end [symmetric] insert_underscore_def split: option.splits)
  next
    case (Some k)
    then show ?thesis
      by (simp add: first_transition_Cons exec_at_run_end [symmetric] insert_underscore_def)
  qed
qed

lemma first_some_None: "(first_some f xs = None) = (\<forall>x \<in> set xs. f x = None)"
  by (induction xs) (auto split: option.splits)

lemma first_some_Some:
  "first_some f xs = Some y \<Longrightarrow>
     \<exists>i < length xs. f (xs ! i) = Some y \<and> (\<forall>i' < i. f (xs ! i') = None)"
proof (induction xs)
  case Nil
  then show ?case by simp
next
  case (Cons x xs)
  show ?case
  proof (cases "f x")
    case (Some z)
    with Cons.prems have "f ((x # xs) ! 0) = Some y" by simp
    then show ?thesis by (intro exI [of _ 0]) simp
  next
    case None
    with Cons obtain i where i: "i < length xs" "f (xs ! i) = Some y" "\<forall>i' < i. f (xs ! i') = None"
      by auto
    have "\<forall>i' < Suc i. f ((x # xs) ! i') = None"
      using None i(3) by (auto simp: less_Suc_eq_0_disj)
    then show ?thesis using i by (intro exI [of _ "Suc i"]) simp
  qed
qed

lemma run_end_None: "(run_end s i = None) = (\<forall>j. \<not> transition s i j)"
proof -
  have "transition s i j \<Longrightarrow> j < length s" for j by (simp add: transition_def)
  then show ?thesis by (auto simp: run_end_def find_None_iff)
qed

lemma run_end_Some:
  assumes "run_end s i = Some j"
  shows "transition s i j \<and> (\<forall>j' > j. \<not> transition s i j')"
proof -
  have bound: "transition s i j' \<Longrightarrow> j' < length s" for j' by (simp add: transition_def)
  have "filter (transition s i) (rev [0 ..< length s]) \<noteq> []"
    using assms by (auto simp: run_end_def find_filter_hd split: list.splits)
  from assms obtain rest where f: "filter (transition s i) (rev [0 ..< length s]) = j # rest"
    by (auto simp: run_end_def find_filter_hd split: list.splits)
  have srt: "sorted (rev (filter (transition s i) (rev [0 ..< length s])))"
    by (simp add: rev_filter sorted_wrt_filter)
  have "j \<in> set (filter (transition s i) (rev [0 ..< length s]))" using f by simp
  then have tj: "transition s i j" by simp
  have "j' \<le> j" if "transition s i j'" for j'
  proof -
    have "j' \<in> set (j # rest)" using that bound [OF that] f [symmetric] by simp
    moreover have "\<forall>x \<in> set rest. x \<le> j" using srt f by (simp add: sorted_append)
    ultimately show ?thesis by auto
  qed
  with tj show ?thesis by (meson not_le)
qed

lemma first_transition_None: "(first_transition s = None) = (\<forall>i j. \<not> transition s i j)"
proof -
  have "transition s i j \<Longrightarrow> i < length s" for i j by (simp add: transition_def)
  then show ?thesis
    by (auto simp: first_transition_def first_some_None run_end_None)
qed

lemma first_transition_Some:
  assumes "first_transition s = Some j"
  shows "\<exists>i. transition s i j \<and> (\<forall>j' > j. \<not> transition s i j') \<and>
             (\<forall>i' < i. \<forall>j'. \<not> transition s i' j')"
proof -
  from first_some_Some [OF assms [unfolded first_transition_def]]
  obtain i where i: "i < length s" "run_end s i = Some j" "\<forall>i' < i. run_end s i' = None"
    by auto
  from run_end_Some [OF i(2)] i(3) show ?thesis
    by (auto simp: run_end_None)
qed

section \<open>Endpoint derivation\<close>

text \<open>What \<^verbatim>\<open>encodeURIComponent\<close> returns is a string of ASCII characters.\<close>

lemma of_char_less_256: "(of_char c :: nat) < 256"
proof -
  have "(of_char c :: nat) mod 256 = of_char c" by (rule of_char_mod_256)
  moreover have "(of_char c :: nat) mod 256 < 256" by simp
  ultimately show ?thesis by simp
qed

lemma ascii_hex_digit: "n < 16 \<Longrightarrow> (of_char (hex_digit n) :: nat) < 128"
proof -
  assume "n < 16"
  then have "hex_digit n \<in> set ''0123456789ABCDEF''"
    unfolding hex_digit_def by (intro nth_mem) simp
  then show ?thesis by auto
qed

lemma ascii_unreserved: "uri_unreserved c \<Longrightarrow> (of_char c :: nat) < 128"
  by (auto simp: uri_unreserved_def is_upper_def is_lower_or_digit_def)

lemma ascii_percent_encode: "ascii_string (percent_encode c)"
proof -
  have "(of_char c :: nat) div 16 < 16"
    by (rule less_mult_imp_div_less) (use of_char_less_256 [of c] in simp)
  moreover have "(of_char c :: nat) mod 16 < 16" by simp
  ultimately show ?thesis
    by (simp add: ascii_string_def percent_encode_def ascii_hex_digit)
qed

lemma ascii_encodeURIComponent: "ascii_string (encodeURIComponent s)"
proof (induction s)
  case Nil
  then show ?case by (simp add: ascii_string_def encodeURIComponent_def)
next
  case (Cons c cs)
  then show ?case
    using ascii_percent_encode [of c] ascii_unreserved [of c]
    by (simp add: ascii_string_def encodeURIComponent_def)
qed

text \<open>
  Claim C2. For an absent sub-path, a string or an array of strings, the entity and the
  segments being strings of ASCII characters, \<^verbatim>\<open>getEndpointFromSubPath\<close> returns the
  segments \<^verbatim>\<open>apis\<close>, \<^verbatim>\<open>pas\<close>, \<^verbatim>\<open>crud\<close>, the entity and the segments of the sub-path, joined
  with \<^verbatim>\<open>/\<close>, the entity and every segment of the sub-path rewritten once: an underscore
  before the upper-case letter of the segment's first transition (none when it has no
  transition), then the segment in lower case. The entity of a constructed client is a
  string of ASCII characters. The entity \<^verbatim>\<open>UserAccount\<close> with the sub-path
  \<^verbatim>\<open>["getProfile"]\<close> gives \<^verbatim>\<open>apis/pas/crud/user_account/get_profile\<close>.
\<close>

theorem getEndpointFromSubPath_endpoint:
  "(list_all ascii_string (entity this # segments subPath st) \<longrightarrow>
      fst (getEndpointFromSubPath this subPath st) =
        join ''/'' ([''apis'', ''pas'', ''crud''] @ map snake_case (entity this # segments subPath st))) \<and>
   ascii_string (entity (new_CrudClient base ent version t)) \<and>
   fst (getEndpointFromSubPath (new_CrudClient base ''UserAccount'' version t) (PathArray a)
         (st\<lparr>arrays := (arrays st)(a := [''getProfile''])\<rparr>)) =
     ''apis/pas/crud/user_account/get_profile''"
proof (intro conjI impI)
  have snake: "(\<lambda>path. toLowerCase (replace_first path)) = snake_case"
    by (rule ext) (simp add: snake_case_def replace_first_refines)
  show "fst (getEndpointFromSubPath this subPath st) =
     join ''/'' ([''apis'', ''pas'', ''crud''] @ map snake_case (entity this # segments subPath st))"
    by (cases subPath) (simp_all add: getEndpointFromSubPath_def segments_def snake Let_def)
next
  show "ascii_string (entity (new_CrudClient base ent version t))"
    by (simp add: new_CrudClient_def ascii_encodeURIComponent)
next
  have "encodeURIComponent ''UserAccount'' = ''UserAccount''" by code_simp
  moreover have "toLowerCase (replace_first ''UserAccount'') = ''user_account''" by code_simp
  moreover have "toLowerCase (replace_first ''getProfile'') = ''get_profile''" by code_simp
  ultimately show "fst (getEndpointFromSubPath (new_CrudClient base ''UserAccount'' version t) (PathArray a)
         (st\<lparr>arrays := (arrays st)(a := [''getProfile''])\<rparr>)) =
     ''apis/pas/crud/user_account/get_profile''"
    by (simp add: getEndpointFromSubPath_def new_CrudClient_def)
qed

text \<open>
  Witness of C2: the entity \<^verbatim>\<open>order\<close> with the sub-path \<^verbatim>\<open>["lineItems", "HTTPStatus"]\<close>.
\<close>

theorem getEndpointFromSubPath_endpoint_witness:
  "fst (getEndpointFromSubPath (new_CrudClient ''http://api.example.com'' ''order'' None None)
         (PathArray 0) \<lparr>configs = [], arrays = (\<lambda>a. [''lineItems'', ''HTTPStatus'']), requests = []\<rparr>) =
     ''apis/pas/crud/order/line_items/http_status''"
proof -
  let ?c = "new_CrudClient ''http://api.example.com'' ''order'' None None"
  let ?st = "\<lparr>configs = [], arrays = (\<lambda>a. [''lineItems'', ''HTTPStatus'']), requests = []\<rparr>"
  have e: "entity ?c = ''order''"
    unfolding new_CrudClient_def by (simp, code_simp)
  have a: "list_all ascii_string (entity ?c # segments (PathArray 0) ?st)"
    unfolding e by (simp add: segments_def ascii_string_def)
  have s1: "snake_case ''order'' = ''order''" by code_simp
  have s2: "snake_case ''lineItems'' = ''line_items''" by code_simp
  have s3: "snake_case ''HTTPStatus'' = ''http_status''" by code_simp
  from getEndpointFromSubPath_endpoint [where this = ?c and subPath = "PathArray 0" and st = ?st] a
  have "fst (getEndpointFromSubPath ?c (PathArray 0) ?st) =
      join ''/'' ([''apis'', ''pas'', ''crud''] @ map snake_case (entity ?c # segments (PathArray 0) ?st))"
    by blast
  then show ?thesis
    unfolding e by (simp add: segments_def s1 s2 s3)
qed

section \<open>The configuration cache and the version check\<close>

lemma strict_equals_eq: "strict_equals v r = (v = requested_value r)"
  by (cases "(v, r)" rule: strict_equals.cases) (auto simp: requested_value_def split: option.splits)

lemma map_of_set_property:
  "map_of (set_property kvs k v) k' = (if k' = k then Some v else map_of kvs k')"
  by (induction kvs k v rule: set_property.induct) auto

lemma fst_set_property: "set (map fst (set_property kvs k v)) = insert k (set (map fst kvs))"
  by (induction kvs k v rule: set_property.induct) auto

lemma has_property_own: "map_of kvs k = Some v \<Longrightarrow> has_property k kvs"
  by (auto simp: has_property_def dest: map_of_SomeD intro: rev_image_eqI)

lemma getConfig_fetch:
  assumes "\<not> has_property (apiNamespace this) (configs st)"
  shows "getConfig net this st =
     (case net (requests st) (config_request this) of
        Failure m \<Rightarrow> (Inl (Error m), st\<lparr>requests := requests st @ [config_request this]\<rparr>)
      | Parsed b \<Rightarrow>
          (Inr (Value b),
           st\<lparr>requests := requests st @ [config_request this],
              configs := set_property (configs st) (apiNamespace this) b\<rparr>))"
  using assms
  by (cases "requestedVersion this")
     (auto simp: getConfig_def config_request_def requestPost_def requestGet_def send_def Let_def
        API_CONFIG_REQUEST_TIMEOUT_def get_property_def map_of_set_property
        split: response_body.splits)

lemma getConfig_cached:
  assumes "has_property (apiNamespace this) (configs st)"
  shows "getConfig net this st = (Inr (get_property (configs st) (apiNamespace this)), st)"
  using assms by (simp add: getConfig_def)

text \<open>
  Claim C6. When the namespace is not a property of the cache, \<^verbatim>\<open>getConfig\<close> sends one
  request: to \<^verbatim>\<open>{apiBaseUrl}.well-known/pas-{namespace}-api/config\<close>, with the timeout 5
  whatever the timeout of the factory is, a POST of \<^verbatim>\<open>{ "{namespace}_version": requestedVersion }\<close>
  exactly when a version was requested, and a GET with no data otherwise.
\<close>

theorem getConfig_request:
  assumes "\<not> has_property (apiNamespace this) (configs st)"
  shows "requests (snd (getConfig net this st)) = requests st @ [config_request this] \<and>
         req_url (config_request this) =
           apiBaseUrl this @ ''.well-known/pas-'' @ apiNamespace this @ ''-api/config'' \<and>
         req_timeout (config_request this) = 5 \<and>
         (req_method (config_request this) = POST) = (requestedVersion this \<noteq> None) \<and>
         (req_method (config_request this) = GET) = (requestedVersion this = None) \<and>
         req_data (config_request this) =
           (case requestedVersion this of
              Some v \<Rightarrow> Value (JObj [(apiNamespace this @ ''_version'', JStr v)])
            | None \<Rightarrow> Undefined)"
  by (auto simp: getConfig_fetch [OF assms] config_request_def split: response_body.splits option.splits)

text \<open>
  Witness of C6: a factory for \<^verbatim>\<open>crud\<close> with the version \<^verbatim>\<open>1\<close> and its own timeout of 60
  seconds, on an empty cache.
\<close>

theorem getConfig_request_witness:
  "requests (snd (getConfig (\<lambda>h r. Parsed (JObj [(''version_supported'', JStr ''1'')]))
       (new_ApiClientFactory ''http://x'' ''crud'' (Some ''1'') (Some 60))
       \<lparr>configs = [], arrays = (\<lambda>a. []), requests = []\<rparr>)) =
     [\<lparr>req_method = POST, req_url = ''http://x/.well-known/pas-crud-api/config'',
       req_timeout = 5, req_data = Value (JObj [(''crud_version'', JStr ''1'')])\<rparr>]"
proof -
  have ns: "encodeURIComponent ''crud'' = ''crud''" by code_simp
  have h: "\<not> has_property (apiNamespace (new_ApiClientFactory ''http://x'' ''crud'' (Some ''1'') (Some 60)))
      (configs \<lparr>configs = [], arrays = (\<lambda>a. []), requests = []\<rparr>)"
    by (simp add: new_ApiClientFactory_def ns has_property_def object_prototype_names_def)
  show ?thesis
    using getConfig_request [OF h, of "\<lambda>h r. Parsed (JObj [(''version_supported'', JStr ''1'')])"]
    by (simp add: config_request_def new_ApiClientFactory_def ns endsWith_slash_def)
qed


text \<open>
  Claim C5. \<^verbatim>\<open>isVersionSupported\<close> takes the config from \<^verbatim>\<open>getConfig\<close>, reads its
  \<^verbatim>\<open>version_supported\<close> and returns whether that value is the requested version: the
  same string, or \<^verbatim>\<open>undefined\<close> on both sides, and nothing else is equal. With no
  requested version the result is true exactly when \<^verbatim>\<open>version_supported\<close> reads as
  \<^verbatim>\<open>undefined\<close>. A failure of \<^verbatim>\<open>getConfig\<close> or of the read is the failure of the call.
\<close>

theorem isVersionSupported_strict:
  "isVersionSupported net this st =
     (case getConfig net this st of
        (Inl e, st1) \<Rightarrow> (Inl e, st1)
      | (Inr config, st1) \<Rightarrow>
          (case member_of config N_version_supported of
             Inl e \<Rightarrow> (Inl e, st1)
           | Inr v \<Rightarrow> (Inr (v = requested_value (requestedVersion this)), st1))) \<and>
   isVersionSupported net (this\<lparr>requestedVersion := None\<rparr>) st =
     (case getConfig net (this\<lparr>requestedVersion := None\<rparr>) st of
        (Inl e, st1) \<Rightarrow> (Inl e, st1)
      | (Inr config, st1) \<Rightarrow>
          (case member_of config N_version_supported of
             Inl e \<Rightarrow> (Inl e, st1)
           | Inr v \<Rightarrow> (Inr (v = Undefined), st1)))"
  by (simp add: isVersionSupported_def strict_equals_eq requested_value_def
      split: prod.splits sum.splits)

text \<open>
  Claim C10. When \<^verbatim>\<open>getConfig\<close> fetches and the body of the response is an error value,
  the call fails with that error, the cache is what it was, and the next \<^verbatim>\<open>getConfig\<close>
  of a factory with the same namespace sends its request again.
\<close>

theorem getConfig_failure_keeps_cache:
  assumes "\<not> has_property (apiNamespace this) (configs st)"
      and "net (requests st) (config_request this) = Failure m"
      and "apiNamespace that = apiNamespace this"
  shows "fst (getConfig net this st) = Inl (Error m) \<and>
         configs (snd (getConfig net this st)) = configs st \<and>
         requests (snd (getConfig net this st)) = requests st @ [config_request this] \<and>
         requests (snd (getConfig net' that (snd (getConfig net this st)))) =
           requests st @ [config_request this, config_request that]"
proof -
  let ?st1 = "st\<lparr>requests := requests st @ [config_request this]\<rparr>"
  have first: "getConfig net this st = (Inl (Error m), ?st1)"
    using assms(2) by (simp add: getConfig_fetch [OF assms(1)])
  have "\<not> has_property (apiNamespace that) (configs ?st1)"
    using assms(1,3) by simp
  from getConfig_fetch [OF this, of net'] have
    "requests (snd (getConfig net' that ?st1)) = requests ?st1 @ [config_request that]"
    by (simp split: response_body.splits)
  with first show ?thesis by simp
qed

text \<open>Witness of C10: a fetch that times out on an empty cache, and a second call.\<close>

theorem getConfig_failure_keeps_cache_witness:
  "fst (getConfig (\<lambda>h r. Failure ''timeout'') (new_ApiClientFactory ''http://x/'' ''crud'' None None)
         \<lparr>configs = [], arrays = (\<lambda>a. []), requests = []\<rparr>) = Inl (Error ''timeout'') \<and>
   configs (snd (getConfig (\<lambda>h r. Failure ''timeout'') (new_ApiClientFactory ''http://x/'' ''crud'' None None)
         \<lparr>configs = [], arrays = (\<lambda>a. []), requests = []\<rparr>)) = [] \<and>
   length (requests (snd (getConfig (\<lambda>h r. Parsed JNull) (new_ApiClientFactory ''http://x/'' ''crud'' None None)
      (snd (getConfig (\<lambda>h r. Failure ''timeout'') (new_ApiClientFactory ''http://x/'' ''crud'' None None)
         \<lparr>configs = [], arrays = (\<lambda>a. []), requests = []\<rparr>))))) = 2"
proof -
  let ?f = "new_ApiClientFactory ''http://x/'' ''crud'' None None"
  let ?st = "\<lparr>configs = [], arrays = (\<lambda>a. []), requests = []\<rparr>"
  have ns: "encodeURIComponent ''crud'' = ''crud''" by code_simp
  have h1: "\<not> has_property (apiNamespace ?f) (configs ?st)"
    by (simp add: new_ApiClientFactory_def ns has_property_def object_prototype_names_def)
  have h2: "(\<lambda>h r. Failure ''timeout'') (requests ?st) (config_request ?f) = Failure ''timeout''"
    by simp
  have h3: "apiNamespace ?f = apiNamespace ?f" by simp
  show ?thesis
    using getConfig_failure_keeps_cache [OF h1 h2 h3, of "\<lambda>h r. Parsed JNull"]
    by simp
qed

section \<open>Clients\<close>

text \<open>
  Claim C7. \<^verbatim>\<open>createClient\<close> is a function of the factory and the path alone: it has no
  error result and it neither takes nor returns the state, so it sends nothing. The URL
  of its client is the base URL of the factory followed by the path without one leading
  \<^verbatim>\<open>/\<close>; of two leading ones the second stays. \<^verbatim>\<open>/foo/bar\<close> and \<^verbatim>\<open>foo/bar\<close> give the
  same client. The base URL a constructed factory holds ends with \<^verbatim>\<open>/\<close>.
\<close>

theorem createClient_url:
  "client_url (createClient this p) = apiBaseUrl this @ strip_leading_slash p \<and>
   client_timeout (createClient this p) = timeout this \<and>
   createClient this (CHR ''/'' # p) = \<lparr>client_url = apiBaseUrl this @ p, client_timeout = timeout this\<rparr> \<and>
   createClient this ''/foo/bar'' = createClient this ''foo/bar'' \<and>
   apiBaseUrl (new_ApiClientFactory base ns version t) = (if endsWith_slash base then base else base @ ''/'') \<and>
   endsWith_slash (apiBaseUrl (new_ApiClientFactory base ns version t))"
  by (cases p) (simp_all add: createClient_def strip_leading_slash_def startsWith_slash_def
      new_ApiClientFactory_def endsWith_slash_def)

text \<open>
  Claim C4, amended. \<^verbatim>\<open>createVerifiedClient\<close> fails when the version check yields false
  and when the config fetch fails, and it returns a client only when the version check
  yields true. On a version mismatch the failure is \<^verbatim>\<open>new Error('APP_VERSION_NOT_SUPPORTED')\<close>:
  an instance of the built-in \<^verbatim>\<open>Error\<close> with that message, which has no code. The error
  of a failed fetch is passed on as it is. When the version check yields true the result
  is the client of \<^verbatim>\<open>createClient\<close> for the path. The state is the one the version check
  leaves.
\<close>

theorem createVerifiedClient_result:
  "(fst (isVersionSupported net this st) = Inr False \<longrightarrow>
      fst (createVerifiedClient net this p st) = Inl (Error ''APP_VERSION_NOT_SUPPORTED'')) \<and>
   (fst (getConfig net this st) = Inl e \<longrightarrow> fst (createVerifiedClient net this p st) = Inl e) \<and>
   (fst (isVersionSupported net this st) = Inr True \<longrightarrow>
      fst (createVerifiedClient net this p st) = Inr (createClient this p)) \<and>
   ((\<exists>client. fst (createVerifiedClient net this p st) = Inr client) \<longrightarrow>
      fst (isVersionSupported net this st) = Inr True) \<and>
   snd (createVerifiedClient net this p st) = snd (isVersionSupported net this st) \<and>
   error_code (Error ''APP_VERSION_NOT_SUPPORTED'') = None"
proof -
  obtain r st1 where g: "getConfig net this st = (r, st1)" by (cases "getConfig net this st")
  obtain v st2 where i: "isVersionSupported net this st = (v, st2)"
    by (cases "isVersionSupported net this st")
  have pass: "r = Inl e \<Longrightarrow> v = Inl e"
    using g i by (simp add: isVersionSupported_def)
  show ?thesis
    using pass by (cases v) (auto simp: createVerifiedClient_def g i error_code_def)
qed

text \<open>
  Witness of C4: version \<^verbatim>\<open>4\<close> requested from a server that supports \<^verbatim>\<open>3\<close>, from a
  transport that fails, and from a server that supports \<^verbatim>\<open>4\<close>.
\<close>

theorem createVerifiedClient_result_witness:
  "fst (createVerifiedClient (\<lambda>h r. Parsed (JObj [(''version_supported'', JStr ''3'')]))
          (new_ApiClientFactory ''http://api.example.com'' ''crud'' (Some ''4'') None) ''orders''
          \<lparr>configs = [], arrays = (\<lambda>a. []), requests = []\<rparr>) =
     Inl (Error ''APP_VERSION_NOT_SUPPORTED'') \<and>
   fst (createVerifiedClient (\<lambda>h r. Failure ''ETIMEDOUT'')
          (new_ApiClientFactory ''http://api.example.com'' ''crud'' (Some ''4'') None) ''orders''
          \<lparr>configs = [], arrays = (\<lambda>a. []), requests = []\<rparr>) =
     Inl (Error ''ETIMEDOUT'') \<and>
   fst (createVerifiedClient (\<lambda>h r. Parsed (JObj [(''version_supported'', JStr ''4'')]))
          (new_ApiClientFactory ''http://api.example.com'' ''crud'' (Some ''4'') None) ''orders''
          \<lparr>configs = [], arrays = (\<lambda>a. []), requests = []\<rparr>) =
     Inr \<lparr>client_url = ''http://api.example.com/orders'', client_timeout = 30\<rparr>"
proof -
  let ?f = "new_ApiClientFactory ''http://api.example.com'' ''crud'' (Some ''4'') None"
  let ?st = "\<lparr>configs = [], arrays = (\<lambda>a. []), requests = []\<rparr>"
  let ?n3 = "\<lambda>(h::request list) (r::request). Parsed (JObj [(''version_supported'', JStr ''3'')])"
  let ?n4 = "\<lambda>(h::request list) (r::request). Parsed (JObj [(''version_supported'', JStr ''4'')])"
  let ?nf = "\<lambda>(h::request list) (r::request). Failure ''ETIMEDOUT''"
  have ns: "encodeURIComponent ''crud'' = ''crud''" by code_simp
  have h: "\<not> has_property (apiNamespace ?f) (configs ?st)"
    by (simp add: new_ApiClientFactory_def ns has_property_def object_prototype_names_def)
  have rv: "requestedVersion ?f = Some ''4''"
    by (simp add: new_ApiClientFactory_def)
  have v3: "fst (isVersionSupported ?n3 ?f ?st) = Inr False"
    by (simp add: isVersionSupported_def getConfig_fetch [OF h] rv)
  have v4: "fst (isVersionSupported ?n4 ?f ?st) = Inr True"
    by (simp add: isVersionSupported_def getConfig_fetch [OF h] rv)
  have gf: "fst (getConfig ?nf ?f ?st) = Inl (Error ''ETIMEDOUT'')"
    by (simp add: getConfig_fetch [OF h])
  have cc: "createClient ?f ''orders'' = \<lparr>client_url = ''http://api.example.com/orders'', client_timeout = 30\<rparr>"
    by (simp add: createClient_def new_ApiClientFactory_def startsWith_slash_def endsWith_slash_def)
  from createVerifiedClient_result [where net = ?n3 and this = ?f and st = ?st and p = "''orders''"] v3
  have a: "fst (createVerifiedClient ?n3 ?f ''orders'' ?st) = Inl (Error ''APP_VERSION_NOT_SUPPORTED'')"
    by blast
  from createVerifiedClient_result [where net = ?nf and this = ?f and st = ?st and p = "''orders''"
      and e = "Error ''ETIMEDOUT''"] gf
  have b: "fst (createVerifiedClient ?nf ?f ''orders'' ?st) = Inl (Error ''ETIMEDOUT'')"
    by blast
  from createVerifiedClient_result [where net = ?n4 and this = ?f and st = ?st and p = "''orders''"] v4
  have c: "fst (createVerifiedClient ?n4 ?f ''orders'' ?st) = Inr (createClient ?f ''orders'')"
    by blast
  from a b c show ?thesis by (simp only: cc) 
qed

text \<open>
  Counterexample to C4 as stated. The server supports version \<^verbatim>\<open>1\<close> and version \<^verbatim>\<open>2\<close> is
  requested: the failure is an \<^verbatim>\<open>Error\<close> whose message is \<^verbatim>\<open>APP_VERSION_NOT_SUPPORTED\<close>,
  and it carries no code.
\<close>

theorem createVerifiedClient_plain_error:
  "fst (createVerifiedClient (\<lambda>h r. Parsed (JObj [(''version_supported'', JStr ''1'')]))
          (new_ApiClientFactory ''http://x/'' ''crud'' (Some ''2'') None) ''/foo''
          \<lparr>configs = [], arrays = (\<lambda>a. []), requests = []\<rparr>) =
     Inl (Error ''APP_VERSION_NOT_SUPPORTED'') \<and>
   error_code (Error ''APP_VERSION_NOT_SUPPORTED'') = None"
proof -
  let ?f = "new_ApiClientFactory ''http://x/'' ''crud'' (Some ''2'') None"
  let ?st = "\<lparr>configs = [], arrays = (\<lambda>a. []), requests = []\<rparr>"
  have ns: "encodeURIComponent ''crud'' = ''crud''" by code_simp
  have h: "\<not> has_property (apiNamespace ?f) (configs ?st)"
    by (simp add: new_ApiClientFactory_def ns has_property_def object_prototype_names_def)
  have rv: "requestedVersion ?f = Some ''2''"
    by (simp add: new_ApiClientFactory_def)
  obtain st1 where g1:
    "getConfig (\<lambda>h r. Parsed (JObj [(''version_supported'', JStr ''1'')])) ?f ?st =
      (Inr (Value (JObj [(''version_supported'', JStr ''1'')])), st1)"
    by (simp add: getConfig_fetch [OF h])
  show ?thesis
    by (simp add: createVerifiedClient_def isVersionSupported_def g1 rv error_code_def)
qed

section \<open>Responses\<close>

lemma own_keys_single:
  "(own_keys kvs = [k]) = (kvs \<noteq> [] \<and> set (map fst kvs) = {k})"
proof
  assume h: "own_keys kvs = [k]"
  then have "set (own_keys kvs) = {k}" by simp
  then have "set (map fst kvs) = {k}" by (simp add: own_keys_def)
  moreover from this have "kvs \<noteq> []" by auto
  ultimately show "kvs \<noteq> [] \<and> set (map fst kvs) = {k}" by simp
next
  assume h: "kvs \<noteq> [] \<and> set (map fst kvs) = {k}"
  have d: "distinct (own_keys kvs)" by (simp add: own_keys_def)
  have s: "set (own_keys kvs) = {k}" using h by (simp add: own_keys_def)
  from d s have "length (own_keys kvs) = 1"
    by (metis distinct_card card.empty card_insert_disjoint empty_iff finite.emptyI One_nat_def)
  then obtain x where "own_keys kvs = [x]"
    by (cases "own_keys kvs") auto
  with s show "own_keys kvs = [k]" by simp
qed

lemma length_own_keys_1:
  "k \<in> set (map fst kvs) \<Longrightarrow> (length (own_keys kvs) = 1) = (own_keys kvs = [k])"
proof -
  assume k: "k \<in> set (map fst kvs)"
  show ?thesis
  proof
    assume "length (own_keys kvs) = 1"
    then obtain x where x: "own_keys kvs = [x]" by (cases "own_keys kvs") auto
    then have "set (map fst kvs) = {x}" by (metis own_keys_def set_remdups list.simps(15) empty_set)
    with k x show "own_keys kvs = [k]" by simp
  qed simp
qed

lemma get_member_message:
  "e \<noteq> JNull \<Longrightarrow> get_member e N_message = Inr (message_of e)"
  by (cases e) (simp_all add: message_of_def)

lemma handleResponse_object:
  assumes "body response = Parsed (JObj kvs)"
  shows "handleResponse response =
     (if ''error'' \<in> set (map fst kvs) \<and> length (own_keys kvs) = 1 then
        (case map_of kvs ''error'' of
           Some e \<Rightarrow> (if e = JNull then Inl TypeError else Inl (Exception (message_of e) ''CRUD_ERROR''))
         | None \<Rightarrow> Inl TypeError)
      else Inr (JObj kvs))"
  using assms
  by (auto simp: handleResponse_def get_member_message split: option.splits)

lemma handleResponse_not_object:
  assumes "body response = Parsed b" and "\<forall>kvs. b \<noteq> JObj kvs"
  shows "handleResponse response = (case b of JArr xs \<Rightarrow> Inr b | _ \<Rightarrow> Inl TypeError)"
  using assms by (cases b) (auto simp: handleResponse_def)

lemma error_key_alone:
  "(''error'' \<in> set (map fst kvs) \<and> length (own_keys kvs) = 1) = (own_keys kvs = [''error''])"
proof (cases "''error'' \<in> set (map fst kvs)")
  case True
  then show ?thesis using length_own_keys_1 [OF True] by simp
next
  case False
  then show ?thesis by (auto simp: own_keys_single)
qed

text \<open>
  What \<^verbatim>\<open>handleResponse\<close> does with every body but one. It fails with the \<^verbatim>\<open>Exception\<close>
  of code \<^verbatim>\<open>CRUD_ERROR\<close> and message \<open>msg\<close> exactly when the body is a record with the
  single key \<^verbatim>\<open>error\<close>, the value under it is not \<^verbatim>\<open>null\<close>, and \<open>msg\<close> is the
  \<^verbatim>\<open>message\<close> of that value. A record that has the key \<^verbatim>\<open>error\<close> and more than one key
  is returned as it is.
\<close>

lemma handleResponse_crud_error:
  assumes "body response = Parsed b"
  shows "(handleResponse response = Inl (Exception msg ''CRUD_ERROR'')) =
           (\<exists>e. sole_error b = Some e \<and> e \<noteq> JNull \<and> msg = message_of e) \<and>
         (\<forall>kvs. b = JObj kvs \<and> ''error'' \<in> set (map fst kvs) \<and> 1 < length (own_keys kvs) \<longrightarrow>
            handleResponse response = Inr b)"
proof (cases "\<exists>kvs. b = JObj kvs")
  case True
  then obtain kvs where b: "b = JObj kvs" by auto
  have hr: "handleResponse response =
     (if own_keys kvs = [''error''] then
        (case map_of kvs ''error'' of
           Some e \<Rightarrow> (if e = JNull then Inl TypeError else Inl (Exception (message_of e) ''CRUD_ERROR''))
         | None \<Rightarrow> Inl TypeError)
      else Inr (JObj kvs))"
    using assms unfolding b by (simp only: handleResponse_object error_key_alone)
  show ?thesis
  proof (cases "own_keys kvs = [''error'']")
    case alone: True
    then have "''error'' \<in> set (map fst kvs)" by (simp add: own_keys_single)
    then obtain e where e: "map_of kvs ''error'' = Some e"
      by (metis map_of_eq_None_iff not_None_eq set_map)
    have "sole_error b = Some e" by (simp add: sole_error_def b alone e)
    moreover have "handleResponse response =
        (if e = JNull then Inl TypeError else Inl (Exception (message_of e) ''CRUD_ERROR''))"
      by (simp add: hr alone e)
    ultimately show ?thesis using alone b by auto
  next
    case False
    then have "sole_error b = None" by (simp add: sole_error_def b)
    moreover have "handleResponse response = Inr b" using False by (simp add: hr b)
    ultimately show ?thesis by simp
  qed
next
  case False
  then have "sole_error b = None" by (cases b) (simp_all add: sole_error_def)
  with False assms show ?thesis
    by (cases b) (auto simp: handleResponse_not_object)
qed

text \<open>
  The bodies \<^verbatim>\<open>{error: {message: "bad"}}\<close> and \<^verbatim>\<open>{error: {message: "bad"}, extra: 1}\<close>.
\<close>

lemma handleResponse_crud_error_examples:
  "handleResponse \<lparr>body = Parsed (JObj [(''error'', JObj [(''message'', JStr ''bad'')])])\<rparr> =
     Inl (Exception (Value (JStr ''bad'')) ''CRUD_ERROR'') \<and>
   handleResponse \<lparr>body = Parsed (JObj [(''error'', JObj [(''message'', JStr ''bad'')]), (''extra'', JNum 1)])\<rparr> =
     Inr (JObj [(''error'', JObj [(''message'', JStr ''bad'')]), (''extra'', JNum 1)])"
proof -
  let ?b1 = "JObj [(''error'', JObj [(''message'', JStr ''bad'')])]"
  let ?b2 = "JObj [(''error'', JObj [(''message'', JStr ''bad'')]), (''extra'', JNum 1)]"
  have h1: "body \<lparr>body = Parsed ?b1\<rparr> = Parsed ?b1" by simp
  have h2: "body \<lparr>body = Parsed ?b2\<rparr> = Parsed ?b2" by simp
  have s1: "sole_error ?b1 = Some (JObj [(''message'', JStr ''bad'')])"
    by (simp add: sole_error_def own_keys_def)
  have m1: "message_of (JObj [(''message'', JStr ''bad'')]) = Value (JStr ''bad'')"
    by (simp add: message_of_def)
  have k2: "1 < length (own_keys [(''error'', JObj [(''message'', JStr ''bad'')]), (''extra'', JNum 1)])"
    by (simp add: own_keys_def)
  from handleResponse_crud_error [OF h1, of "Value (JStr ''bad'')"] s1 m1
  have a: "handleResponse \<lparr>body = Parsed ?b1\<rparr> = Inl (Exception (Value (JStr ''bad'')) ''CRUD_ERROR'')"
    by simp
  from handleResponse_crud_error [OF h2, of Undefined] k2
  have b: "handleResponse \<lparr>body = Parsed ?b2\<rparr> = Inr ?b2"
    by simp
  from a b show ?thesis by simp
qed

text \<open>
  Claim C3, at the body \<^verbatim>\<open>{error: null}\<close>. It is a record with exactly one key, named
  \<^verbatim>\<open>error\<close>, and the source goes into the branch that throws the \<^verbatim>\<open>Exception\<close> of code
  \<^verbatim>\<open>CRUD_ERROR\<close>; the read of \<^verbatim>\<open>body.error.message\<close> there has no guard and throws a
  TypeError, so \<^verbatim>\<open>handleResponse\<close> fails with the TypeError and not with \<^verbatim>\<open>CRUD_ERROR\<close>.
\<close>

theorem handleResponse_null_error:
  "sole_error (JObj [(''error'', JNull)]) = Some JNull \<and>
   handleResponse \<lparr>body = Parsed (JObj [(''error'', JNull)])\<rparr> = Inl TypeError"
  by (simp add: sole_error_def own_keys_def handleResponse_def)

section \<open>The operations of CrudClient\<close>

lemma arrays_send: "arrays (snd (send net m client d st)) = arrays st"
  by (simp add: send_def Let_def)

lemma arrays_getConfig: "arrays (snd (getConfig net this st)) = arrays st"
  by (auto simp: getConfig_def Let_def requestPost_def requestGet_def send_def
      split: option.splits response_body.splits prod.splits)

lemma arrays_isVersionSupported: "arrays (snd (isVersionSupported net this st)) = arrays st"
  using arrays_getConfig [of net this st]
  by (auto simp: isVersionSupported_def split: prod.splits sum.splits)

lemma arrays_createVerifiedClient: "arrays (snd (createVerifiedClient net this p st)) = arrays st"
  using arrays_isVersionSupported [of net this st]
  by (auto simp: createVerifiedClient_def split: prod.splits sum.splits)

lemma snd_getEndpointFromSubPath:
  "snd (getEndpointFromSubPath this subPath st) =
     (case subPath of
        PathArray a \<Rightarrow> st\<lparr>arrays := (arrays st)(a := entity this # arrays st a)\<rparr>
      | _ \<Rightarrow> st)"
  by (cases subPath) (simp_all add: getEndpointFromSubPath_def Let_def)

lemma arrays_verified_request:
  assumes "\<And>hc st2. arrays (snd (req hc st2)) = arrays st2"
  shows "arrays (snd (let (endpoint, st1) = getEndpointFromSubPath this subPath st
      in case createVerifiedClient net (apiClientFactory this) endpoint st1 of
           (Inl e, st2) \<Rightarrow> (Inl e, st2)
         | (Inr httpClient, st2) \<Rightarrow>
             (let (resp, st3) = req httpClient st2 in (post resp, st3)))) =
     arrays (snd (getEndpointFromSubPath this subPath st))"
proof -
  obtain endpoint st1 where g: "getEndpointFromSubPath this subPath st = (endpoint, st1)"
    by (cases "getEndpointFromSubPath this subPath st")
  obtain r st2 where c: "createVerifiedClient net (apiClientFactory this) endpoint st1 = (r, st2)"
    by (cases "createVerifiedClient net (apiClientFactory this) endpoint st1")
  have a2: "arrays st2 = arrays st1"
    using arrays_createVerifiedClient [of net "apiClientFactory this" endpoint st1] c by simp
  show ?thesis
  proof (cases r)
    case (Inl e)
    then show ?thesis using g c a2 by simp
  next
    case (Inr hc)
    obtain resp st3 where q: "req hc st2 = (resp, st3)" by (cases "req hc st2")
    have "arrays st3 = arrays st2" using assms [of hc st2] q by simp
    then show ?thesis using g c a2 Inr q by simp
  qed
qed

lemma arrays_create: "arrays (snd (create net this subPath d st)) = arrays (snd (getEndpointFromSubPath this subPath st))"
  unfolding create_def
  by (rule arrays_verified_request [where post = handleResponse]) (simp add: requestPost_def arrays_send)

lemma arrays_execute: "arrays (snd (execute net this subPath d st)) = arrays (snd (getEndpointFromSubPath this subPath st))"
  unfolding execute_def
  by (rule arrays_verified_request [where post = handleResponse]) (simp add: requestPost_def arrays_send)

lemma arrays_get: "arrays (snd (get net this subPath d st)) = arrays (snd (getEndpointFromSubPath this subPath st))"
  unfolding get_def
  by (rule arrays_verified_request [where post = handleResponse]) (simp add: requestGet_def arrays_send)

lemma arrays_update: "arrays (snd (update net this subPath d st)) = arrays (snd (getEndpointFromSubPath this subPath st))"
  unfolding update_def
  by (rule arrays_verified_request [where post = handleResponse]) (simp add: requestPatch_def arrays_send)

lemma arrays_upsert: "arrays (snd (upsert net this subPath d st)) = arrays (snd (getEndpointFromSubPath this subPath st))"
  unfolding upsert_def
  by (rule arrays_verified_request [where post = handleResponse]) (simp add: requestPut_def arrays_send)

lemma arrays_isValid: "arrays (snd (isValid net this subPath d st)) = arrays (snd (getEndpointFromSubPath this subPath st))"
proof -
  obtain endpoint st1 where g: "getEndpointFromSubPath this subPath st = (endpoint, st1)"
    by (cases "getEndpointFromSubPath this subPath st")
  obtain r st2 where c: "createVerifiedClient net (apiClientFactory this) endpoint st1 = (r, st2)"
    by (cases "createVerifiedClient net (apiClientFactory this) endpoint st1")
  have a2: "arrays st2 = arrays st1"
    using arrays_createVerifiedClient [of net "apiClientFactory this" endpoint st1] c by simp
  show ?thesis
  proof (cases r)
    case (Inl e)
    then show ?thesis using g c a2 by (simp add: isValid_def)
  next
    case (Inr hc)
    obtain resp st3 where q: "requestHead net hc d st2 = (resp, st3)" by (cases "requestHead net hc d st2")
    have "arrays st3 = arrays st2" using arrays_send [of net HEAD hc d st2] q by (simp add: requestHead_def)
    then show ?thesis using g c a2 Inr q by (simp add: isValid_def split: sum.splits)
  qed
qed

text \<open>
  Claim C9. Given an array, \<^verbatim>\<open>getEndpointFromSubPath\<close> puts the entity of the client (the
  percent-encoded name the constructor stored) in front of the caller's array and changes
  nothing else of the state; given a string or nothing it changes nothing. The client and
  its factory are arguments that are not returned: the source assigns their fields in the
  constructors only. Every operation of \<^verbatim>\<open>CrudClient\<close> derives the endpoint first, so
  after each of them, whether it failed or not, the caller's array has the entity as a
  new first element.
\<close>

theorem getEndpointFromSubPath_frame:
  "snd (getEndpointFromSubPath this (PathArray a) st) =
     st\<lparr>arrays := (arrays st)(a := entity this # arrays st a)\<rparr> \<and>
   snd (getEndpointFromSubPath this (PathString p) st) = st \<and>
   snd (getEndpointFromSubPath this NoSubPath st) = st \<and>
   entity (new_CrudClient base ent version t) = encodeURIComponent ent \<and>
   arrays (snd (create net this (PathArray a) d st)) = (arrays st)(a := entity this # arrays st a) \<and>
   arrays (snd (execute net this (PathArray a) d st)) = (arrays st)(a := entity this # arrays st a) \<and>
   arrays (snd (get net this (PathArray a) d st)) = (arrays st)(a := entity this # arrays st a) \<and>
   arrays (snd (isValid net this (PathArray a) d st)) = (arrays st)(a := entity this # arrays st a) \<and>
   arrays (snd (update net this (PathArray a) d st)) = (arrays st)(a := entity this # arrays st a) \<and>
   arrays (snd (upsert net this (PathArray a) d st)) = (arrays st)(a := entity this # arrays st a)"
  by (simp add: arrays_create arrays_execute arrays_get arrays_isValid arrays_update arrays_upsert
      snd_getEndpointFromSubPath new_CrudClient_def)

lemma unwrap_success_eq:
  assumes "handleResponse resp = Inr ret"
  shows "unwrap_success ret = Inr (case boolean_success ret of Some v \<Rightarrow> JBool v | None \<Rightarrow> ret)"
proof -
  from assms obtain b where b: "body resp = Parsed b"
    by (cases "body resp") (auto simp: handleResponse_def)
  show ?thesis
  proof (cases "\<exists>kvs. ret = JObj kvs")
    case True
    then obtain kvs where r: "ret = JObj kvs" by auto
    have "map_of kvs ''success'' = None \<longleftrightarrow> ''success'' \<notin> set (map fst kvs)"
      by (simp add: map_of_eq_None_iff)
    then show ?thesis
      by (auto simp: unwrap_success_def boolean_success_def r split: option.splits json.splits)
  next
    case False
    have "ret = b" using assms b
      by (auto simp: handleResponse_def split: sum.splits if_splits)
    with False assms b have "\<exists>xs. ret = JArr xs"
      by (cases b) (auto simp: handleResponse_def)
    then show ?thesis
      by (auto simp: unwrap_success_def boolean_success_def)
  qed
qed

lemma handleResponse_Inr_not_bool: "handleResponse resp = Inr ret \<Longrightarrow> ret \<noteq> JBool v"
  by (cases "body resp") (auto simp: handleResponse_def split: sum.splits if_splits)

text \<open>
  Claim C8. When the client is verified and \<^verbatim>\<open>handleResponse\<close> returns the body \<open>ret\<close>
  of the HEAD response, \<^verbatim>\<open>isValid\<close> returns the boolean under \<^verbatim>\<open>success\<close> when \<open>ret\<close> is
  a record with a field \<^verbatim>\<open>success\<close> of boolean type, and \<open>ret\<close> itself otherwise; it
  returns \<open>ret\<close> exactly when \<open>ret\<close> is not such a record.
\<close>

theorem isValid_unwraps_success:
  assumes "getEndpointFromSubPath this subPath st = (endpoint, st1)"
      and "createVerifiedClient net (apiClientFactory this) endpoint st1 = (Inr httpClient, st2)"
      and "handleResponse (fst (requestHead net httpClient d st2)) = Inr ret"
  shows "fst (isValid net this subPath d st) =
           Inr (case boolean_success ret of Some v \<Rightarrow> JBool v | None \<Rightarrow> ret) \<and>
         (fst (isValid net this subPath d st) = Inr ret) = (boolean_success ret = None)"
proof -
  obtain resp st3 where q: "requestHead net httpClient d st2 = (resp, st3)"
    by (cases "requestHead net httpClient d st2")
  with assms(3) have h: "handleResponse resp = Inr ret" by simp
  have r: "fst (isValid net this subPath d st) = unwrap_success ret"
    by (simp add: isValid_def assms(1,2) q h)
  show ?thesis
    using handleResponse_Inr_not_bool [OF h]
    by (auto simp: r unwrap_success_eq [OF h] split: option.splits)
qed


text \<open>
  Witness of C8: a server with no \<^verbatim>\<open>version_supported\<close>, a client that requests no
  version, and the HEAD bodies \<^verbatim>\<open>{success: true}\<close> and \<^verbatim>\<open>{success: "yes"}\<close>.
\<close>

theorem isValid_unwraps_success_witness:
  "fst (isValid (\<lambda>h r. if req_method r = HEAD then Parsed (JObj [(''success'', JBool True)])
                       else Parsed (JObj []))
         (new_CrudClient ''http://api.example.com'' ''order'' None None) (PathString ''items'') Undefined
         \<lparr>configs = [], arrays = (\<lambda>a. []), requests = []\<rparr>) = Inr (JBool True) \<and>
   fst (isValid (\<lambda>h r. if req_method r = HEAD then Parsed (JObj [(''success'', JStr ''yes'')])
                       else Parsed (JObj []))
         (new_CrudClient ''http://api.example.com'' ''order'' None None) (PathString ''items'') Undefined
         \<lparr>configs = [], arrays = (\<lambda>a. []), requests = []\<rparr>) = Inr (JObj [(''success'', JStr ''yes'')])"
proof -
  let ?c = "new_CrudClient ''http://api.example.com'' ''order'' None None"
  let ?st = "\<lparr>configs = [], arrays = (\<lambda>a. []), requests = []\<rparr>"
  let ?ep = "''apis/pas/crud/order/items''"
  let ?hc = "\<lparr>client_url = ''http://api.example.com/apis/pas/crud/order/items'', client_timeout = 30\<rparr>"
  let ?st2 = "\<lparr>configs = [(''crud'', JObj [])], arrays = (\<lambda>a. []),
      requests = [\<lparr>req_method = GET, req_url = ''http://api.example.com/.well-known/pas-crud-api/config'',
                  req_timeout = 5, req_data = Undefined\<rparr>]\<rparr>"
  have e1: "encodeURIComponent ''order'' = ''order''" by code_simp
  have e2: "encodeURIComponent ''crud'' = ''crud''" by code_simp
  have l1: "toLowerCase (replace_first ''order'') = ''order''" by code_simp
  have l2: "toLowerCase (replace_first ''items'') = ''items''" by code_simp
  have c: "?c = \<lparr>entity = ''order'', apiClientFactory =
      \<lparr>apiBaseUrl = ''http://api.example.com/'', apiNamespace = ''crud'', requestedVersion = None, timeout = 30\<rparr>\<rparr>"
    by (simp add: new_CrudClient_def new_ApiClientFactory_def e1 e2 endsWith_slash_def)
  have h1: "getEndpointFromSubPath ?c (PathString ''items'') ?st = (?ep, ?st)"
    by (simp add: c getEndpointFromSubPath_def l1 l2 del: replace_first.simps)
  have nh: "\<not> has_property (apiNamespace (apiClientFactory ?c)) (configs ?st)"
    by (simp add: c has_property_def object_prototype_names_def)
  have h2: "createVerifiedClient net (apiClientFactory ?c) ?ep ?st = (Inr ?hc, ?st2)"
    if "\<And>h r. req_method r \<noteq> HEAD \<Longrightarrow> net h r = Parsed (JObj [])" for net
    using that [where h = "[]" and r = "config_request (apiClientFactory ?c)"]
    by (simp add: createVerifiedClient_def isVersionSupported_def getConfig_fetch [OF nh])
       (simp add: c config_request_def createClient_def startsWith_slash_def)
  let ?n1 = "\<lambda>(h::request list) r. if req_method r = HEAD then Parsed (JObj [(''success'', JBool True)])
                       else Parsed (JObj [])"
  let ?n2 = "\<lambda>(h::request list) r. if req_method r = HEAD then Parsed (JObj [(''success'', JStr ''yes'')])
                       else Parsed (JObj [])"
  have r1: "handleResponse (fst (requestHead ?n1 ?hc Undefined ?st2)) = Inr (JObj [(''success'', JBool True)])"
    by (simp add: requestHead_def send_def handleResponse_def)
  have r2: "handleResponse (fst (requestHead ?n2 ?hc Undefined ?st2)) = Inr (JObj [(''success'', JStr ''yes'')])"
    by (simp add: requestHead_def send_def handleResponse_def)
  have a: "fst (isValid ?n1 ?c (PathString ''items'') Undefined ?st) = Inr (JBool True)"
    using isValid_unwraps_success [OF h1 h2 r1] by (simp add: boolean_success_def)
  have b: "fst (isValid ?n2 ?c (PathString ''items'') Undefined ?st) = Inr (JObj [(''success'', JStr ''yes'')])"
    using isValid_unwraps_success [OF h1 h2 r2] by (simp add: boolean_success_def)
  from a b show ?thesis by simp
qed

section \<open>The cache across calls\<close>

text \<open>
  For a namespace the cache object does not inherit, the first call fetches and stores
  the parsed body, a later call of any factory with the namespace returns the stored
  body and sends nothing, and no call removes or replaces a stored body.
\<close>

lemma has_property_set_property: "has_property k (set_property kvs k v)"
  using fst_set_property [of kvs k v] by (auto simp: has_property_def)

lemma get_property_set_property: "get_property (set_property kvs k v) k = Value v"
  by (simp add: get_property_def map_of_set_property)

lemma getConfig_keeps_entries:
  assumes "map_of (configs st) k = Some v"
  shows "map_of (configs (snd (getConfig net this st))) k = Some v"
proof (cases "has_property (apiNamespace this) (configs st)")
  case True
  then show ?thesis using assms by (simp add: getConfig_cached)
next
  case False
  then have "k \<noteq> apiNamespace this" using has_property_own [OF assms] by auto
  then show ?thesis
    using assms by (simp add: getConfig_fetch [OF False] map_of_set_property split: response_body.splits)
qed

lemma getConfig_second_call:
  assumes "\<not> has_property (apiNamespace this) (configs st)"
      and "net (requests st) (config_request this) = Parsed b"
      and "apiNamespace that = apiNamespace this"
  shows "fst (getConfig net this st) = Inr (Value b) \<and>
         requests (snd (getConfig net this st)) = requests st @ [config_request this] \<and>
         map_of (configs (snd (getConfig net this st))) (apiNamespace this) = Some b \<and>
         getConfig net' that (snd (getConfig net this st)) =
           (Inr (Value b), snd (getConfig net this st))"
proof -
  let ?st1 = "st\<lparr>requests := requests st @ [config_request this],
                 configs := set_property (configs st) (apiNamespace this) b\<rparr>"
  have first: "getConfig net this st = (Inr (Value b), ?st1)"
    using assms(2) by (simp add: getConfig_fetch [OF assms(1)])
  have "has_property (apiNamespace that) (configs ?st1)"
    by (simp add: assms(3) has_property_set_property)
  then have "getConfig net' that ?st1 = (Inr (get_property (configs ?st1) (apiNamespace that)), ?st1)"
    by (rule getConfig_cached)
  then show ?thesis
    by (simp add: first assms(3) get_property_set_property map_of_set_property)
qed

lemma getConfig_cached_entry:
  assumes "map_of (configs st) (apiNamespace this) = Some b"
  shows "getConfig net this st = (Inr (Value b), st)"
  using assms by (simp add: getConfig_cached has_property_own get_property_def)

text \<open>
  Claim C1, at the namespace \<^verbatim>\<open>constructor\<close>. The cache is empty and nothing was
  fetched, yet \<^verbatim>\<open>'constructor' in configs\<close> holds, since the cache object inherits the
  property: the first \<^verbatim>\<open>getConfig\<close> sends no request, stores nothing and returns the
  inherited built-in as the config.
\<close>

theorem getConfig_inherited_name:
  "getConfig net (new_ApiClientFactory ''http://x/'' ''constructor'' None None)
      \<lparr>configs = [], arrays = arrs, requests = []\<rparr> =
     (Inr (Builtin ''constructor''), \<lparr>configs = [], arrays = arrs, requests = []\<rparr>)"
proof -
  have ns: "encodeURIComponent ''constructor'' = ''constructor''" by code_simp
  show ?thesis
    by (simp add: getConfig_def new_ApiClientFactory_def ns has_property_def get_property_def
        object_prototype_names_def)
qed

end
